theory Spec2Isabelle
  imports Main
begin

section \<open>Data model of the worker\<close>

text \<open>
  Python values that travel through a task call. An \<open>ExecutionContext\<close> is built once in
  \<open>AsyncWorker.__init__\<close>; the model refers to such an object by its address, since the
  registry it holds contains the very functions the object is passed to.
\<close>

type_synonym ref = nat

datatype pyval = PNone | PInt int | PStr string | PCtx ref

text \<open>
  Exceptions. \<open>CancelledError\<close> derives from \<open>BaseException\<close> only, so the handler
  \<open>except Exception\<close> of \<open>_worker\<close> does not catch it.
\<close>

datatype exn = KeyError string | ValueError | TaskError string | CancelledError

fun is_Exception :: "exn \<Rightarrow> bool" where
  "is_Exception CancelledError = False"
| "is_Exception _ = True"

datatype 'a outcome = Returned 'a | Raised exn

text \<open>
  \<open>TaskRecord\<close> and \<open>BrokerTask\<close> are declared outside the worker module; the worker
  reads \<open>task.id\<close>, \<open>task.task_name\<close>, \<open>task.requeue_count\<close> and \<open>broker_task.task\<close>.
  The serialized arguments stay opaque until \<open>deserialize_task\<close> decodes them.
\<close>

record TaskRecord =
  task_id :: string
  task_name :: string
  requeue_count :: int
  payload :: string

record BrokerTask =
  task :: TaskRecord
  delivery_token :: nat

text \<open>
  \<open>shutdown_deadline\<close> is a \<open>timedelta\<close>: a whole number of microseconds, which
  \<open>total_seconds()\<close> turns into seconds.
\<close>

record TaskConfiguration =
  max_delivery_attempts :: int
  shutdown_deadline :: int

record Configuration =
  task_cfg :: TaskConfiguration

text \<open>
  What the worker does to its collaborators, in the order it does it: the broker, the
  dispatch channel, the in-flight registry \<open>_active_tasks\<close>, the result backend and
  the extension hooks.
\<close>

datatype event =
    BrokerRead
  | ReadCancelled
  | StopSet
  | BrokerAck BrokerTask
  | ChannelSend BrokerTask
  | Claimed string
  | Released string
  | AckContextEnter BrokerTask
  | CallTaskFn TaskRecord
  | AckContextCommit BrokerTask
  | AckContextAbandon BrokerTask
  | ResultSet string pyval
  | OnTaskException nat TaskRecord exn
  | OnTaskCompletion nat TaskRecord pyval

section \<open>The intake loop of \<open>AsyncWorker.run\<close>\<close>

text \<open>
  The body of \<open>for message in read_task.result()\<close>: the acknowledgement sits under the
  \<open>if\<close>, the send after it, at the loop body's own indentation.
\<close>

definition intake_message :: "Configuration \<Rightarrow> BrokerTask \<Rightarrow> event list" where
  "intake_message cfg message =
     (if requeue_count (task message) \<ge> max_delivery_attempts (task_cfg cfg)
      then [BrokerAck message] else [])
     @ [ChannelSend message]"

text \<open>The whole \<open>for\<close> loop over one batch.\<close>

definition intake_batch :: "Configuration \<Rightarrow> BrokerTask list \<Rightarrow> event list" where
  "intake_batch cfg ms = concat (map (intake_message cfg) ms)"

text \<open>
  The stop event is set from outside the loop: by the signal handlers that \<open>run\<close>
  installs, which run between any two instructions, or by a call of \<open>stop\<close>. \<open>Some j\<close>
  says that this happens while a batch is handled, when \<open>j\<close> of its awaits
  (acknowledgements and sends) are over; \<open>j\<close> equal to their number: during the
  \<open>asyncio.sleep(0)\<close> that follows the batch. \<open>None\<close> or a larger \<open>j\<close>: it does not happen
  between the read and the check of \<open>_stop_event.is_set()\<close>.
\<close>

definition interrupted :: "nat option \<Rightarrow> event list \<Rightarrow> event list" where
  "interrupted k evs =
     (case k of
        None \<Rightarrow> evs
      | Some j \<Rightarrow> if j \<le> length evs then take j evs @ StopSet # drop j evs else evs)"

definition stop_fires :: "nat option \<Rightarrow> event list \<Rightarrow> bool" where
  "stop_fires k evs = (case k of None \<Rightarrow> False | Some j \<Rightarrow> j \<le> length evs)"

text \<open>
  The outcome of \<open>asyncio.wait({stop_task, read_task}, return_when=FIRST_COMPLETED)\<close>:
  either the read is done (with its batch), or only the stop task is.
\<close>

datatype race = ReadDone "BrokerTask list" "nat option" | StopWins

text \<open>
  One iteration of the \<open>while True\<close> loop, as the environment drives it. The flag says
  that the stop event is set before the iteration creates its read task: before \<open>run\<close>
  reaches the loop, or between the check that ends the previous iteration and the
  \<open>create_task\<close> that begins this one.
\<close>

datatype iteration = Iteration bool race

text \<open>
  The loop. The result is the trace and whether the loop has left through one of its two
  \<open>break\<close>s (\<open>False\<close>: the schedule ended first). When only the stop task is done and
  the event was not set before the read, it was set during the wait.
\<close>

fun run_loop :: "Configuration \<Rightarrow> iteration list \<Rightarrow> event list \<times> bool" where
  "run_loop cfg [] = ([], False)"
| "run_loop cfg (Iteration early StopWins # rs) =
     ((if early then [StopSet] else []) @ [BrokerRead]
        @ (if early then [] else [StopSet]) @ [ReadCancelled],
      True)"
| "run_loop cfg (Iteration early (ReadDone batch k) # rs) =
     (let evs = (if early then [StopSet] else [])
                @ BrokerRead # interrupted k (intake_batch cfg batch)
      in if early \<or> stop_fires k (intake_batch cfg batch) then (evs, True)
         else (case run_loop cfg rs of (evs', left) \<Rightarrow> (evs @ evs', left)))"

definition run_trace :: "Configuration \<Rightarrow> iteration list \<Rightarrow> event list" where
  "run_trace cfg rs = fst (run_loop cfg rs)"





definition sent :: "event list \<Rightarrow> BrokerTask list" where
  "sent es = concat (map (\<lambda>e. case e of ChannelSend m \<Rightarrow> [m] | _ \<Rightarrow> []) es)"

definition acked :: "event list \<Rightarrow> BrokerTask list" where
  "acked es = concat (map (\<lambda>e. case e of BrokerAck m \<Rightarrow> [m] | _ \<Rightarrow> []) es)"



section \<open>Dependency injection: \<open>_dependencies_to_inject\<close> and \<open>_call_task_fn\<close>\<close>

text \<open>
  The annotation of a parameter, as \<open>inspect.signature\<close> reports it: a class object
  (\<open>int\<close>, \<open>str\<close>, \<open>ExecutionContext\<close>), known by its name; the source text of the
  annotation, a string, when the module postpones the evaluation of annotations
  (\<open>from __future__ import annotations\<close>, or an annotation written in quotes); or an object
  whose \<open>__eq__\<close> answers \<open>True\<close> to everything (such as \<open>unittest.mock.ANY\<close>).
\<close>

datatype annotation = ClassObject string | PostponedName string | EqualsAll

definition ExecutionContext :: annotation where
  "ExecutionContext = ClassObject ''ExecutionContext''"

text \<open>
  Python's \<open>a is b\<close> and \<open>a == b\<close> on these objects, and \<open>a in types\<close> on a tuple, which
  asks for identity or equality with an element.
\<close>

definition py_is :: "annotation \<Rightarrow> annotation \<Rightarrow> bool" where
  "py_is a b = (a = b)"

definition py_eq :: "annotation \<Rightarrow> annotation \<Rightarrow> bool" where
  "py_eq a b = (a = b \<or> a = EqualsAll \<or> b = EqualsAll)"

definition py_in :: "annotation \<Rightarrow> annotation list \<Rightarrow> bool" where
  "py_in a types = list_ex (\<lambda>b. py_is a b \<or> py_eq a b) types"

text \<open>
  A parameter that the source declares with the type \<open>ExecutionContext\<close>
  (\<open>context: ExecutionContext\<close>), whether or not the annotation has been evaluated.
\<close>

definition declared_ExecutionContext :: "annotation \<Rightarrow> bool" where
  "declared_ExecutionContext a =
     (a = ClassObject ''ExecutionContext'' \<or> a = PostponedName ''ExecutionContext'')"

text \<open>
  A function's signature: the parameters in order, each with its annotation. Parameter
  names are distinct, as Python requires.
\<close>

record PyFunction =
  parameters :: "(string \<times> annotation) list"

record TaskDefinition =
  func :: PyFunction

type_synonym kwargs_t = "string \<rightharpoonup> pyval"

text \<open>
  \<open>_dependencies_to_inject\<close>: the parameters whose annotation is \<open>in types\<close>, as a
  dictionary in insertion order. The \<open>lru_cache\<close> around it does not change what it returns.
\<close>

definition dependencies_to_inject ::
  "PyFunction \<Rightarrow> annotation list \<Rightarrow> (string \<times> annotation) list" where
  "dependencies_to_inject function types =
     filter (\<lambda>(key, annotation). py_in annotation types) (parameters function)"

definition setdefault :: "kwargs_t \<Rightarrow> string \<Rightarrow> pyval \<Rightarrow> kwargs_t" where
  "setdefault kw key obj = (case kw key of None \<Rightarrow> kw(key \<mapsto> obj) | Some v \<Rightarrow> kw)"

text \<open>
  The loop of \<open>_call_task_fn\<close> over the items of that dictionary: \<open>value is
  ExecutionContext\<close> gives the worker's \<open>_execution_context\<close>, anything else
  \<open>raise ValueError\<close>.
\<close>

fun inject :: "ref \<Rightarrow> (string \<times> annotation) list \<Rightarrow> kwargs_t \<Rightarrow> kwargs_t outcome" where
  "inject ctx [] kw = Returned kw"
| "inject ctx ((key, value) # deps) kw =
     (if py_is value ExecutionContext then inject ctx deps (setdefault kw key (PCtx ctx))
      else Raised ValueError)"

text \<open>
  An annotation that passes \<open>in (ExecutionContext,)\<close> without being \<open>ExecutionContext\<close>.
\<close>

definition impostor :: "string \<times> annotation \<Rightarrow> bool" where
  "impostor p = (py_in (snd p) [ExecutionContext] \<and> \<not> py_is (snd p) ExecutionContext)"

section \<open>The executor: \<open>AsyncWorker._worker\<close>\<close>

text \<open>
  An extension hook returns (\<open>None\<close>) or raises (\<open>Some e\<close>); the worker awaits it without
  a handler of its own.
\<close>

type_synonym on_task_exception_t = "TaskRecord \<Rightarrow> exn \<Rightarrow> exn option"
type_synonym on_task_completion_t = "TaskRecord \<Rightarrow> pyval \<Rightarrow> exn option"

text \<open>
  A result backend, as the worker sees it: its truth value (\<open>if self._result_backend:\<close>
  asks \<open>__bool__\<close> or \<open>__len__\<close> where the class defines one, and is true otherwise), and
  what awaiting \<open>set(task_id=..., value=...)\<close> does: it returns (\<open>None\<close>) or raises
  (\<open>Some e\<close>, a cancellation included).
\<close>

record ResultBackend =
  truthy :: bool
  set_raises :: "string \<Rightarrow> pyval \<Rightarrow> exn option"

text \<open>
  The fields of \<open>AsyncWorker\<close> that the executor reads. \<open>deserialize_task\<close> (module
  \<open>aiotaskqueue.serialization\<close>) and \<open>MiddlewareStack.call\<close> (module
  \<open>aiotaskqueue.extensions.middleware\<close>, built from \<open>_ext_on_task_execution\<close>) are
  declared outside the worker module and are taken as parameters: either returns or raises.
\<close>

record AsyncWorker =
  configuration :: Configuration
  result_backend :: "ResultBackend option"
  tasks :: "string \<rightharpoonup> TaskDefinition"
  concurrency :: nat
  execution_context :: ref
  ext_on_task_exception :: "on_task_exception_t list"
  ext_on_task_completion :: "on_task_completion_t list"
  deserialize_task :: "TaskDefinition \<Rightarrow> TaskRecord \<Rightarrow> (pyval list \<times> kwargs_t) outcome"
  middleware_stack_call :: "TaskDefinition \<Rightarrow> pyval list \<Rightarrow> kwargs_t \<Rightarrow> ref \<Rightarrow> pyval outcome"

definition call_task_fn :: "AsyncWorker \<Rightarrow> TaskRecord \<Rightarrow> TaskDefinition \<Rightarrow> pyval outcome" where
  "call_task_fn w t task_definition =
     (case deserialize_task w task_definition t of
        Raised e \<Rightarrow> Raised e
      | Returned (args, kwargs) \<Rightarrow>
          (case inject (execution_context w)
                  (dependencies_to_inject (func task_definition) [ExecutionContext]) kwargs of
             Raised e \<Rightarrow> Raised e
           | Returned kwargs' \<Rightarrow>
               middleware_stack_call w task_definition args kwargs' (execution_context w)))"

text \<open>
  The mutable state an executor touches: the in-flight registry \<open>_active_tasks\<close>, the
  contents of the result backend, and the trace of what has been done so far.
\<close>

record worker_state =
  active_tasks :: "string \<rightharpoonup> BrokerTask"
  results :: "string \<rightharpoonup> pyval"
  trace :: "event list"

definition log :: "event list \<Rightarrow> worker_state \<Rightarrow> worker_state" where
  "log evs st = st\<lparr>trace := trace st @ evs\<rparr>"

text \<open>\<open>self._active_tasks[broker_task.task.id] = broker_task\<close>\<close>

definition claim :: "BrokerTask \<Rightarrow> worker_state \<Rightarrow> worker_state" where
  "claim broker_task st =
     log [Claimed (task_id (task broker_task))]
       (st\<lparr>active_tasks := (active_tasks st)(task_id (task broker_task) \<mapsto> broker_task)\<rparr>)"

text \<open>\<open>self._active_tasks.pop(broker_task.task.id, None)\<close>, the \<open>finally\<close> clause\<close>

definition release :: "BrokerTask \<Rightarrow> worker_state \<Rightarrow> worker_state" where
  "release broker_task st =
     log [Released (task_id (task broker_task))]
       (st\<lparr>active_tasks := (active_tasks st)(task_id (task broker_task) := None)\<rparr>)"

text \<open>
  \<open>if self._result_backend: await self._result_backend.set(task_id=task.id,
  value=result)\<close>. The test is the backend's truth value, which \<open>None\<close> does not have.
  The call is in the trace whenever it is made; the value is in the store when the call
  has returned (what a call that raises has stored is the backend's own affair, and the
  store is left as it was). The second component is the exception that leaves the
  statement, if any.
\<close>

definition stores :: "AsyncWorker \<Rightarrow> bool" where
  "stores w = (case result_backend w of None \<Rightarrow> False | Some rb \<Rightarrow> truthy rb)"

definition store_raises :: "AsyncWorker \<Rightarrow> string \<Rightarrow> pyval \<Rightarrow> exn option" where
  "store_raises w key v =
     (case result_backend w of
        None \<Rightarrow> None
      | Some rb \<Rightarrow> if truthy rb then set_raises rb key v else None)"

definition result_set ::
  "AsyncWorker \<Rightarrow> string \<Rightarrow> pyval \<Rightarrow> worker_state \<Rightarrow> worker_state \<times> exn option" where
  "result_set w key v st =
     (if stores w
      then (case store_raises w key v of
              None \<Rightarrow> (log [ResultSet key v] (st\<lparr>results := (results st)(key \<mapsto> v)\<rparr>), None)
            | Some e \<Rightarrow> (log [ResultSet key v] st, Some e))
      else (st, None))"

text \<open>
  The two hook loops, in registration order, the position of each hook counted from
  \<open>i\<close>. A hook that raises ends the loop: the later hooks are not called.
\<close>

fun run_on_task_exception ::
  "nat \<Rightarrow> on_task_exception_t list \<Rightarrow> TaskRecord \<Rightarrow> exn \<Rightarrow> event list \<times> exn option" where
  "run_on_task_exception i [] t e = ([], None)"
| "run_on_task_exception i (h # hs) t e =
     (case h t e of
        Some e' \<Rightarrow> ([OnTaskException i t e], Some e')
      | None \<Rightarrow> (case run_on_task_exception (Suc i) hs t e of
                   (evs, r) \<Rightarrow> (OnTaskException i t e # evs, r)))"

fun run_on_task_completion ::
  "nat \<Rightarrow> on_task_completion_t list \<Rightarrow> TaskRecord \<Rightarrow> pyval \<Rightarrow> event list \<times> exn option" where
  "run_on_task_completion i [] t v = ([], None)"
| "run_on_task_completion i (h # hs) t v =
     (case h t v of
        Some e' \<Rightarrow> ([OnTaskCompletion i t v], Some e')
      | None \<Rightarrow> (case run_on_task_completion (Suc i) hs t v of
                   (evs, r) \<Rightarrow> (OnTaskCompletion i t v # evs, r)))"

text \<open>
  Modelled from the spec: \<open>Broker.ack_context\<close>, declared outside the worker module. The
  context "commits an ack on normal exit and leaves the message unacknowledged (eligible
  for broker-side redelivery) if an exception escapes".
\<close>

definition ack_context_exit :: "BrokerTask \<Rightarrow> pyval outcome \<Rightarrow> event" where
  "ack_context_exit broker_task r =
     (case r of Returned v \<Rightarrow> AckContextCommit broker_task
              | Raised e \<Rightarrow> AckContextAbandon broker_task)"

text \<open>
  The body of \<open>async for broker_task in recv\<close> for one message. The result is the new
  state and the exception that leaves the loop body, if any. The \<open>finally\<close> clause runs
  when the \<open>try\<close> statement is left: after the hooks of the \<open>except\<close> clause, and before
  the statements that follow the \<open>try\<close>. An exception that leaves the storage skips the
  completion hooks.
\<close>

definition worker_task ::
  "AsyncWorker \<Rightarrow> worker_state \<Rightarrow> BrokerTask \<Rightarrow> worker_state \<times> exn option" where
  "worker_task w st broker_task =
     (let st1 = claim broker_task st;
          t = task broker_task
      in case tasks w (task_name t) of
           None \<Rightarrow> (st1, Some (KeyError (task_name t)))
         | Some task_definition \<Rightarrow>
             (let st2 = log [AckContextEnter broker_task, CallTaskFn t] st1;
                  r = call_task_fn w t task_definition;
                  st3 = log [ack_context_exit broker_task r] st2
              in case r of
                   Raised e \<Rightarrow>
                     if is_Exception e
                     then (case run_on_task_exception 0 (ext_on_task_exception w) t e of
                             (evs, r') \<Rightarrow> (release broker_task (log evs st3), r'))
                     else (release broker_task st3, Some e)
                 | Returned result \<Rightarrow>
                     (case result_set w (task_id t) result (release broker_task st3) of
                        (st4, Some e) \<Rightarrow> (st4, Some e)
                      | (st4, None) \<Rightarrow>
                          (case run_on_task_completion 0 (ext_on_task_completion w) t result of
                             (evs, r') \<Rightarrow> (log evs st4, r')))))"

text \<open>
  The executor loop over what its receive stream delivers; the stream's end ends the
  loop, an exception leaving the body ends the executor.
\<close>

fun worker ::
  "AsyncWorker \<Rightarrow> worker_state \<Rightarrow> BrokerTask list \<Rightarrow> worker_state \<times> exn option" where
  "worker w st [] = (st, None)"
| "worker w st (broker_task # recv) =
     (case worker_task w st broker_task of
        (st', Some e) \<Rightarrow> (st', Some e)
      | (st', None) \<Rightarrow> worker w st' recv)"

text \<open>Whether \<open>x\<close> occurs in a trace with \<open>y\<close> somewhere after it.\<close>

fun before :: "event \<Rightarrow> event \<Rightarrow> event list \<Rightarrow> bool" where
  "before x y [] = False"
| "before x y (e # es) = (if e = x then y \<in> set es else before x y es)"

section \<open>The executor pool and the shared in-flight registry\<close>

text \<open>
  \<open>run\<close> starts \<open>concurrency\<close> executors on one event loop; they share \<open>_active_tasks\<close>.
  Between two \<open>await\<close>s an executor runs alone, so the entry into the registry (with the
  receipt of the message) and the \<open>finally\<close> clause's removal are each one step of the
  pool. An executor is idle, or between the two on a task.
\<close>

datatype phase = Idle | Executing BrokerTask

record pool =
  registry :: "string \<rightharpoonup> BrokerTask"
  executors :: "phase list"

datatype pool_action = Claim nat BrokerTask | Finish nat

fun pool_step :: "pool \<Rightarrow> pool_action \<Rightarrow> pool" where
  "pool_step p (Claim i bt) =
     (if i < length (executors p) \<and> executors p ! i = Idle
      then p\<lparr>registry := (registry p)(task_id (task bt) \<mapsto> bt),
             executors := (executors p)[i := Executing bt]\<rparr>
      else p)"
| "pool_step p (Finish i) =
     (if i < length (executors p)
      then (case executors p ! i of
              Idle \<Rightarrow> p
            | Executing bt \<Rightarrow>
                p\<lparr>registry := (registry p)(task_id (task bt) := None),
                  executors := (executors p)[i := Idle]\<rparr>)
      else p)"

text \<open>A schedule of such steps, from the left.\<close>

definition pool_run :: "pool \<Rightarrow> pool_action list \<Rightarrow> pool" where
  "pool_run = foldl pool_step"

text \<open>The ids the executors are working on, and whether the registry holds each of them.\<close>

fun ids_of :: "phase list \<Rightarrow> string list" where
  "ids_of [] = []"
| "ids_of (Idle # xs) = ids_of xs"
| "ids_of (Executing bt # xs) = task_id (task bt) # ids_of xs"

fun covers :: "(string \<rightharpoonup> BrokerTask) \<Rightarrow> phase list \<Rightarrow> bool" where
  "covers r [] = True"
| "covers r (Idle # xs) = covers r xs"
| "covers r (Executing bt # xs) = (r (task_id (task bt)) = Some bt \<and> covers r xs)"

definition in_flight_ids :: "pool \<Rightarrow> string list" where
  "in_flight_ids p = ids_of (executors p)"

definition registry_covers :: "pool \<Rightarrow> bool" where
  "registry_covers p = covers (registry p) (executors p)"

text \<open>
  A schedule in which no executor claims a task whose id another executor is working on.
\<close>

fun distinct_claims :: "pool \<Rightarrow> pool_action list \<Rightarrow> bool" where
  "distinct_claims p [] = True"
| "distinct_claims p (Claim i bt # steps) =
     (task_id (task bt) \<notin> set (in_flight_ids p) \<and>
      distinct_claims (pool_step p (Claim i bt)) steps)"
| "distinct_claims p (Finish i # steps) = distinct_claims (pool_step p (Finish i)) steps"

definition idle_pool :: "nat \<Rightarrow> pool" where
  "idle_pool n = \<lparr>registry = Map.empty, executors = replicate n Idle\<rparr>"

definition pool_inv :: "pool \<Rightarrow> bool" where
  "pool_inv p \<longleftrightarrow> registry_covers p \<and> distinct (in_flight_ids p)"

section \<open>Shutdown: \<open>_shutdown_tasks\<close>\<close>













section \<open>The dispatch channel\<close>

text \<open>
  \<open>run\<close> creates the channel with \<open>anyio.create_memory_object_stream()\<close>, without an
  argument. The stream belongs to the anyio library; what follows is its documented
  behaviour: \<open>max_buffer_size\<close> defaults to 0; \<open>send_nowait\<close> hands the item to a waiting
  receiver if there is one, else buffers it if the buffer has room, else would block, and
  \<open>send\<close> then waits in line; \<open>receive_nowait\<close> first moves the item of the first waiting
  sender into the buffer, which lets that sender go on, then takes the buffer's first
  item, and would block on an empty buffer, where \<open>receive\<close> then waits.
\<close>

record 'a stream =
  max_buffer_size :: nat
  buffer :: "'a list"
  waiting_receivers :: nat
  waiting_senders :: "'a list"
  received :: "'a list"

datatype 'a stream_op = Send 'a | Receive

definition create_memory_object_stream :: "nat option \<Rightarrow> 'a stream" where
  "create_memory_object_stream arg =
     \<lparr>max_buffer_size = (case arg of None \<Rightarrow> 0 | Some n \<Rightarrow> n),
      buffer = [], waiting_receivers = 0, waiting_senders = [], received = []\<rparr>"

definition send_nowait :: "'a \<Rightarrow> 'a stream \<Rightarrow> 'a stream option" where
  "send_nowait item s =
     (if waiting_receivers s > 0
      then Some (s\<lparr>waiting_receivers := waiting_receivers s - 1, received := received s @ [item]\<rparr>)
      else if length (buffer s) < max_buffer_size s
      then Some (s\<lparr>buffer := buffer s @ [item]\<rparr>)
      else None)"

definition send :: "'a \<Rightarrow> 'a stream \<Rightarrow> 'a stream" where
  "send item s =
     (case send_nowait item s of
        Some s' \<Rightarrow> s'
      | None \<Rightarrow> s\<lparr>waiting_senders := waiting_senders s @ [item]\<rparr>)"

definition receive_nowait :: "'a stream \<Rightarrow> 'a stream option" where
  "receive_nowait s =
     (let s1 = (case waiting_senders s of
                  [] \<Rightarrow> s
                | item # rest \<Rightarrow> s\<lparr>waiting_senders := rest, buffer := buffer s @ [item]\<rparr>)
      in case buffer s1 of
           [] \<Rightarrow> None
         | item # rest \<Rightarrow> Some (s1\<lparr>buffer := rest, received := received s1 @ [item]\<rparr>))"

definition receive :: "'a stream \<Rightarrow> 'a stream" where
  "receive s =
     (case receive_nowait s of
        Some s' \<Rightarrow> s'
      | None \<Rightarrow> s\<lparr>waiting_receivers := waiting_receivers s + 1\<rparr>)"

fun stream_step :: "'a stream \<Rightarrow> 'a stream_op \<Rightarrow> 'a stream" where
  "stream_step s (Send item) = send item s"
| "stream_step s Receive = receive s"

definition stream_run :: "'a stream \<Rightarrow> 'a stream_op list \<Rightarrow> 'a stream" where
  "stream_run = foldl stream_step"

fun items :: "'a stream_op list \<Rightarrow> 'a list" where
  "items [] = []"
| "items (Send x # ops) = x # items ops"
| "items (Receive # ops) = items ops"

definition dispatch_channel :: "BrokerTask stream" where
  "dispatch_channel = create_memory_object_stream None"

definition unbuffered :: "'a stream \<Rightarrow> bool" where
  "unbuffered s \<longleftrightarrow> max_buffer_size s = 0 \<and> buffer s = [] \<and>
     (waiting_receivers s = 0 \<or> waiting_senders s = [])"

section \<open>Concrete workers and messages\<close>

text \<open>
  The registry of the test fixture: \<open>noop_task\<close> under the name \<open>test-task\<close> and
  \<open>task_with_params(a: int, b: str)\<close> under \<open>task-with-params\<close>.
\<close>

definition noop_task :: TaskDefinition where
  "noop_task = \<lparr>func = \<lparr>parameters = []\<rparr>\<rparr>"

definition task_with_params :: TaskDefinition where
  "task_with_params =
     \<lparr>func = \<lparr>parameters = [(''a'', ClassObject ''int''), (''b'', ClassObject ''str'')]\<rparr>\<rparr>"

definition three_attempts :: Configuration where
  "three_attempts =
     \<lparr>task_cfg = \<lparr>max_delivery_attempts = 3, shutdown_deadline = 10000000\<rparr>\<rparr>"

definition exhausted_message :: BrokerTask where
  "exhausted_message =
     \<lparr>task = \<lparr>task_id = ''t1'', task_name = ''test-task'', requeue_count = 3,
              payload = ''[]''\<rparr>,
      delivery_token = 7\<rparr>"

definition fresh_message :: BrokerTask where
  "fresh_message =
     \<lparr>task = \<lparr>task_id = ''t2'', task_name = ''test-task'', requeue_count = 0,
              payload = ''[]''\<rparr>,
      delivery_token = 8\<rparr>"

definition params_message :: BrokerTask where
  "params_message =
     \<lparr>task = \<lparr>task_id = ''t4'', task_name = ''task-with-params'', requeue_count = 0,
              payload = ''[1, x]''\<rparr>,
      delivery_token = 11\<rparr>"

definition unknown_message :: BrokerTask where
  "unknown_message =
     \<lparr>task = \<lparr>task_id = ''t3'', task_name = ''no-such-task'', requeue_count = 0,
              payload = ''[]''\<rparr>,
      delivery_token = 9\<rparr>"

text \<open>
  A result backend that is true and whose \<open>set\<close> returns; one whose \<open>set\<close> raises; and
  one that is false (a backend that has a length, and holds nothing yet).
\<close>

definition sound_backend :: ResultBackend where
  "sound_backend = \<lparr>truthy = True, set_raises = (\<lambda>key v. None)\<rparr>"

definition broken_backend :: ResultBackend where
  "broken_backend = \<lparr>truthy = True, set_raises = (\<lambda>key v. Some (TaskError ''backend''))\<rparr>"

definition empty_backend :: ResultBackend where
  "empty_backend = \<lparr>truthy = False, set_raises = (\<lambda>key v. None)\<rparr>"

text \<open>
  A worker with a result backend and two hooks of each kind, none of which raises; every
  task returns \<open>None\<close>.
\<close>

definition quiet_worker :: AsyncWorker where
  "quiet_worker =
     \<lparr>configuration = three_attempts,
      result_backend = Some sound_backend,
      tasks = [''test-task'' \<mapsto> noop_task, ''task-with-params'' \<mapsto> task_with_params],
      concurrency = 1,
      execution_context = 0,
      ext_on_task_exception = [\<lambda>t e. None, \<lambda>t e. None],
      ext_on_task_completion = [\<lambda>t v. None, \<lambda>t v. None],
      deserialize_task = (\<lambda>d t. Returned ([], Map.empty)),
      middleware_stack_call = (\<lambda>d a k c. Returned PNone)\<rparr>"

text \<open>The same worker when every task raises, and when the first hook of a kind raises.\<close>

definition failing_worker :: AsyncWorker where
  "failing_worker =
     quiet_worker\<lparr>middleware_stack_call := (\<lambda>d a k c. Raised (TaskError ''boom''))\<rparr>"

definition failing_worker_bad_hook :: AsyncWorker where
  "failing_worker_bad_hook =
     failing_worker\<lparr>ext_on_task_exception := [\<lambda>t e. Some (TaskError ''hook''), \<lambda>t e. None]\<rparr>"

definition quiet_worker_bad_hook :: AsyncWorker where
  "quiet_worker_bad_hook =
     quiet_worker\<lparr>ext_on_task_completion := [\<lambda>t v. Some (TaskError ''hook''), \<lambda>t v. None]\<rparr>"

text \<open>The same worker with the backend whose \<open>set\<close> raises, and with the false one.\<close>

definition broken_backend_worker :: AsyncWorker where
  "broken_backend_worker = quiet_worker\<lparr>result_backend := Some broken_backend\<rparr>"

definition empty_backend_worker :: AsyncWorker where
  "empty_backend_worker = quiet_worker\<lparr>result_backend := Some empty_backend\<rparr>"

text \<open>
  Tasks that declare a parameter \<open>context: ExecutionContext\<close> and return what they find
  in it (or the string \<open>unbound\<close>): with the annotation evaluated, with the annotation
  postponed, and with an annotation that is equal to everything. The payload \<open>bound\<close>
  deserializes to keyword arguments that already bind the parameter.
\<close>

definition task_with_context :: TaskDefinition where
  "task_with_context =
     \<lparr>func = \<lparr>parameters = [(''a'', ClassObject ''int''), (''context'', ExecutionContext)]\<rparr>\<rparr>"

definition task_with_postponed_context :: TaskDefinition where
  "task_with_postponed_context =
     \<lparr>func = \<lparr>parameters = [(''a'', PostponedName ''int''),
                             (''context'', PostponedName ''ExecutionContext'')]\<rparr>\<rparr>"

definition task_with_any :: TaskDefinition where
  "task_with_any =
     \<lparr>func = \<lparr>parameters = [(''a'', ClassObject ''int''), (''context'', EqualsAll)]\<rparr>\<rparr>"

definition echo_worker :: AsyncWorker where
  "echo_worker =
     quiet_worker
       \<lparr>tasks := [''echo-context'' \<mapsto> task_with_context],
        deserialize_task :=
          (\<lambda>d t. Returned ([PInt 1],
             if payload t = ''bound'' then [''context'' \<mapsto> PInt 2] else Map.empty)),
        middleware_stack_call :=
          (\<lambda>d a k c. Returned (case k ''context'' of None \<Rightarrow> PStr ''unbound''
                                                   | Some v \<Rightarrow> v))\<rparr>"

definition echo_record :: "string \<Rightarrow> TaskRecord" where
  "echo_record p =
     \<lparr>task_id = ''t5'', task_name = ''echo-context'', requeue_count = 0, payload = p\<rparr>"



text \<open>The quiet worker with a shutdown deadline of zero.\<close>

definition hasty_worker :: AsyncWorker where
  "hasty_worker =
     quiet_worker\<lparr>configuration :=
       \<lparr>task_cfg = \<lparr>max_delivery_attempts = 3, shutdown_deadline = 0\<rparr>\<rparr>\<rparr>"

text \<open>The message \<open>t2\<close> delivered a second time, under another delivery token.\<close>

definition redelivered_message :: BrokerTask where
  "redelivered_message = fresh_message\<lparr>delivery_token := 10\<rparr>"

definition idle :: worker_state where
  "idle = \<lparr>active_tasks = Map.empty, results = Map.empty, trace = []\<rparr>"

section \<open>Facts about the intake loop\<close>














section \<open>Facts about the executor\<close>

lemmas ex_defs = hasty_worker_def params_message_def quiet_worker_def failing_worker_def
  failing_worker_bad_hook_def quiet_worker_bad_hook_def broken_backend_worker_def
  empty_backend_worker_def sound_backend_def broken_backend_def empty_backend_def
  idle_def fresh_message_def unknown_message_def
  exhausted_message_def three_attempts_def noop_task_def task_with_params_def

lemma trace_log [simp]: "trace (log evs st) = trace st @ evs"
  and active_log [simp]: "active_tasks (log evs st) = active_tasks st"
  and results_log [simp]: "results (log evs st) = results st"
  by (simp_all add: log_def)

lemma log_log [simp]: "log ys (log xs st) = log (xs @ ys) st"
  by (simp add: log_def)

lemma trace_claim [simp]: "trace (claim bt st) = trace st @ [Claimed (task_id (task bt))]"
  and active_claim [simp]: "active_tasks (claim bt st) = (active_tasks st)(task_id (task bt) \<mapsto> bt)"
  and results_claim [simp]: "results (claim bt st) = results st"
  by (simp_all add: claim_def)

lemma trace_release [simp]: "trace (release bt st) = trace st @ [Released (task_id (task bt))]"
  and active_release [simp]: "active_tasks (release bt st) = (active_tasks st)(task_id (task bt) := None)"
  and results_release [simp]: "results (release bt st) = results st"
  by (simp_all add: release_def)

lemma trace_result_set:
  "trace (fst (result_set w key v st)) = trace st @ (if stores w then [ResultSet key v] else [])"
  by (simp add: result_set_def split: option.splits)

lemma active_result_set [simp]:
  "active_tasks (fst (result_set w key v st)) = active_tasks st"
  by (simp add: result_set_def split: option.splits)

lemma snd_result_set: "snd (result_set w key v st) = store_raises w key v"
  by (auto simp: result_set_def stores_def store_raises_def split: option.splits)

lemma results_result_set:
  "stores w \<Longrightarrow> store_raises w key v = None \<Longrightarrow>
   results (fst (result_set w key v st)) = (results st)(key \<mapsto> v)"
  by (simp add: result_set_def)

lemma worker_task_unknown:
  "tasks w (task_name (task bt)) = None \<Longrightarrow>
   worker_task w st bt = (claim bt st, Some (KeyError (task_name (task bt))))"
  by (simp add: worker_task_def)

text \<open>The state in which the storage begins, for a task that has returned.\<close>

lemma worker_task_returned:
  assumes "tasks w (task_name (task bt)) = Some d"
    and "call_task_fn w (task bt) d = Returned v"
  shows "worker_task w st bt =
     (case result_set w (task_id (task bt)) v
             (release bt
                (log [AckContextEnter bt, CallTaskFn (task bt), AckContextCommit bt]
                   (claim bt st))) of
        (st4, Some e) \<Rightarrow> (st4, Some e)
      | (st4, None) \<Rightarrow>
          (log (fst (run_on_task_completion 0 (ext_on_task_completion w) (task bt) v)) st4,
           snd (run_on_task_completion 0 (ext_on_task_completion w) (task bt) v)))"
  using assms
  by (simp add: worker_task_def ack_context_exit_def Let_def split: prod.splits option.splits)

lemma worker_task_raised:
  assumes "tasks w (task_name (task bt)) = Some d"
    and "call_task_fn w (task bt) d = Raised e"
    and "is_Exception e"
  shows "worker_task w st bt =
     (release bt
        (log ([AckContextEnter bt, CallTaskFn (task bt), AckContextAbandon bt]
              @ fst (run_on_task_exception 0 (ext_on_task_exception w) (task bt) e))
           (claim bt st)),
      snd (run_on_task_exception 0 (ext_on_task_exception w) (task bt) e))"
  using assms by (simp add: worker_task_def ack_context_exit_def Let_def split: prod.splits)

lemma worker_task_cancelled:
  assumes "tasks w (task_name (task bt)) = Some d"
    and "call_task_fn w (task bt) d = Raised e"
    and "\<not> is_Exception e"
  shows "worker_task w st bt =
     (release bt
        (log [AckContextEnter bt, CallTaskFn (task bt), AckContextAbandon bt] (claim bt st)),
      Some e)"
  using assms by (simp add: worker_task_def ack_context_exit_def Let_def split: prod.splits)

lemma run_on_task_exception_quiet:
  "\<forall>h \<in> set hs. h t e = None \<Longrightarrow>
   run_on_task_exception i hs t e = (map (\<lambda>j. OnTaskException j t e) [i ..< i + length hs], None)"
proof (induction hs arbitrary: i)
  case Nil
  then show ?case by simp
next
  case (Cons h hs)
  then show ?case by (simp add: upt_conv_Cons del: upt_Suc)
qed

lemma run_on_task_completion_quiet:
  "\<forall>h \<in> set hs. h t v = None \<Longrightarrow>
   run_on_task_completion i hs t v = (map (\<lambda>j. OnTaskCompletion j t v) [i ..< i + length hs], None)"
proof (induction hs arbitrary: i)
  case Nil
  then show ?case by simp
next
  case (Cons h hs)
  then show ?case by (simp add: upt_conv_Cons del: upt_Suc)
qed

text \<open>The trace of a task that has returned, whatever the backend and the hooks do.\<close>

lemma worker_task_returned_trace:
  assumes "tasks w (task_name (task bt)) = Some d"
    and "call_task_fn w (task bt) d = Returned v"
  shows "trace (fst (worker_task w st bt)) =
            trace st
            @ [Claimed (task_id (task bt)), AckContextEnter bt, CallTaskFn (task bt),
               AckContextCommit bt, Released (task_id (task bt))]
            @ (if stores w then [ResultSet (task_id (task bt)) v] else [])
            @ (case store_raises w (task_id (task bt)) v of
                 None \<Rightarrow> fst (run_on_task_completion 0 (ext_on_task_completion w) (task bt) v)
               | Some e \<Rightarrow> [])"
    and "snd (worker_task w st bt) =
           (case store_raises w (task_id (task bt)) v of
              None \<Rightarrow> snd (run_on_task_completion 0 (ext_on_task_completion w) (task bt) v)
            | Some e \<Rightarrow> Some e)"
proof -
  let ?st3 = "release bt
                (log [AckContextEnter bt, CallTaskFn (task bt), AckContextCommit bt]
                   (claim bt st))"
  obtain st4 r where rs: "result_set w (task_id (task bt)) v ?st3 = (st4, r)"
    by (cases "result_set w (task_id (task bt)) v ?st3")
  have t4: "trace st4 = trace ?st3 @ (if stores w then [ResultSet (task_id (task bt)) v] else [])"
    using trace_result_set [of w "task_id (task bt)" v ?st3] rs by simp
  have r: "r = store_raises w (task_id (task bt)) v"
    using snd_result_set [of w "task_id (task bt)" v ?st3] rs by simp
  show "trace (fst (worker_task w st bt)) =
            trace st
            @ [Claimed (task_id (task bt)), AckContextEnter bt, CallTaskFn (task bt),
               AckContextCommit bt, Released (task_id (task bt))]
            @ (if stores w then [ResultSet (task_id (task bt)) v] else [])
            @ (case store_raises w (task_id (task bt)) v of
                 None \<Rightarrow> fst (run_on_task_completion 0 (ext_on_task_completion w) (task bt) v)
               | Some e \<Rightarrow> [])"
  proof (cases "store_raises w (task_id (task bt)) v")
    case None
    with rs t4 r show ?thesis by (simp add: worker_task_returned [OF assms])
  next
    case (Some e)
    with rs t4 r show ?thesis by (simp add: worker_task_returned [OF assms])
  qed
  show "snd (worker_task w st bt) =
           (case store_raises w (task_id (task bt)) v of
              None \<Rightarrow> snd (run_on_task_completion 0 (ext_on_task_completion w) (task bt) v)
            | Some e \<Rightarrow> Some e)"
  proof (cases "store_raises w (task_id (task bt)) v")
    case None
    with rs r show ?thesis by (simp add: worker_task_returned [OF assms])
  next
    case (Some e)
    with rs r show ?thesis by (simp add: worker_task_returned [OF assms])
  qed
qed

lemma worker_task_returned_results:
  assumes "tasks w (task_name (task bt)) = Some d"
    and "call_task_fn w (task bt) d = Returned v"
    and "stores w" and "store_raises w (task_id (task bt)) v = None"
  shows "results (fst (worker_task w st bt)) = (results st)(task_id (task bt) \<mapsto> v)"
proof -
  let ?st3 = "release bt
                (log [AckContextEnter bt, CallTaskFn (task bt), AckContextCommit bt]
                   (claim bt st))"
  obtain st4 r where rs: "result_set w (task_id (task bt)) v ?st3 = (st4, r)"
    by (cases "result_set w (task_id (task bt)) v ?st3")
  have r: "r = None"
    using snd_result_set [of w "task_id (task bt)" v ?st3] rs assms(4) by simp
  have "results st4 = (results ?st3)(task_id (task bt) \<mapsto> v)"
    using results_result_set [OF assms(3,4), of ?st3] rs by simp
  then show ?thesis using rs r by (simp add: worker_task_returned [OF assms(1,2)])
qed

lemma worker_task_releases:
  assumes "tasks w (task_name (task bt)) = Some d"
  shows "active_tasks (fst (worker_task w st bt)) = (active_tasks st)(task_id (task bt) := None)"
proof (cases "call_task_fn w (task bt) d")
  case (Returned v)
  let ?st3 = "release bt
                (log [AckContextEnter bt, CallTaskFn (task bt), AckContextCommit bt]
                   (claim bt st))"
  obtain st4 r where rs: "result_set w (task_id (task bt)) v ?st3 = (st4, r)"
    by (cases "result_set w (task_id (task bt)) v ?st3")
  have "active_tasks st4 = active_tasks ?st3"
    using active_result_set [of w "task_id (task bt)" v ?st3] rs by simp
  then show ?thesis
    using rs by (cases r) (simp_all add: worker_task_returned [OF assms Returned])
next
  case (Raised e)
  with assms show ?thesis
    by (cases "is_Exception e") (simp_all add: worker_task_raised worker_task_cancelled)
qed

lemma worker_task_span:
  assumes "tasks w (task_name (task bt)) = Some d"
  shows "\<exists>fin rest. (fin = AckContextCommit bt \<or> fin = AckContextAbandon bt) \<and>
           trace (fst (worker_task w st bt)) =
             trace st @ [Claimed (task_id (task bt)), AckContextEnter bt, CallTaskFn (task bt), fin]
               @ rest \<and>
           Released (task_id (task bt)) \<in> set rest"
proof (cases "call_task_fn w (task bt) d")
  case (Returned v)
  show ?thesis
    using worker_task_returned_trace(1) [OF assms Returned, of st] by simp
next
  case (Raised e)
  with assms show ?thesis
    by (cases "is_Exception e") (simp_all add: worker_task_raised worker_task_cancelled)
qed

section \<open>Facts about the pool, the channel, injection and the shutdown\<close>

lemma ids_of_append: "ids_of (xs @ ys) = ids_of xs @ ids_of ys"
  by (induction xs rule: ids_of.induct) auto

lemma covers_append: "covers r (xs @ ys) \<longleftrightarrow> covers r xs \<and> covers r ys"
  by (induction r xs rule: covers.induct) auto

lemma covers_upd_other:
  "k \<notin> set (ids_of xs) \<Longrightarrow> covers (r(k := v)) xs = covers r xs"
  by (induction r xs rule: covers.induct) auto

lemma ids_of_replicate: "ids_of (replicate n Idle) = []"
  by (induction n) auto

lemma covers_replicate: "covers r (replicate n Idle)"
  by (induction n) auto

lemma pool_inv_claim:
  assumes inv: "pool_inv p" and fresh: "task_id (task bt) \<notin> set (in_flight_ids p)"
  shows "pool_inv (pool_step p (Claim i bt))"
proof (cases "i < length (executors p) \<and> executors p ! i = Idle")
  case False
  then show ?thesis using inv by auto
next
  case True
  define L where "L = take i (executors p)"
  define R where "R = drop (Suc i) (executors p)"
  have old: "executors p = L @ Idle # R"
    using True id_take_nth_drop [of i "executors p"] by (simp add: L_def R_def)
  have new: "(executors p)[i := Executing bt] = L @ Executing bt # R"
    using True by (simp add: L_def R_def upd_conv_take_nth_drop)
  have step: "pool_step p (Claim i bt) =
      p\<lparr>registry := (registry p)(task_id (task bt) \<mapsto> bt), executors := L @ Executing bt # R\<rparr>"
    using True new by simp
  have facts: "covers (registry p) L" "covers (registry p) R"
    "distinct (ids_of L @ ids_of R)"
    "task_id (task bt) \<notin> set (ids_of L)" "task_id (task bt) \<notin> set (ids_of R)"
    using inv fresh unfolding pool_inv_def registry_covers_def in_flight_ids_def old
    by (auto simp: ids_of_append covers_append)
  show ?thesis
    unfolding step pool_inv_def registry_covers_def in_flight_ids_def
    using facts by (auto simp: ids_of_append covers_append covers_upd_other)
qed

lemma pool_inv_finish:
  assumes inv: "pool_inv p"
  shows "pool_inv (pool_step p (Finish i))"
proof (cases "i < length (executors p)")
  case False
  then show ?thesis using inv by simp
next
  case True
  show ?thesis
  proof (cases "executors p ! i")
    case Idle
    then show ?thesis using inv True by simp
  next
    case (Executing bt)
    define L where "L = take i (executors p)"
    define R where "R = drop (Suc i) (executors p)"
    have old: "executors p = L @ Executing bt # R"
      using True Executing id_take_nth_drop [of i "executors p"] by (simp add: L_def R_def)
    have new: "(executors p)[i := Idle] = L @ Idle # R"
      using True by (simp add: L_def R_def upd_conv_take_nth_drop)
    have step: "pool_step p (Finish i) =
        p\<lparr>registry := (registry p)(task_id (task bt) := None), executors := L @ Idle # R\<rparr>"
      using True Executing new by simp
    have facts: "covers (registry p) L" "covers (registry p) R"
      "distinct (ids_of L @ ids_of R)"
      "task_id (task bt) \<notin> set (ids_of L)" "task_id (task bt) \<notin> set (ids_of R)"
      using inv unfolding pool_inv_def registry_covers_def in_flight_ids_def old
      by (auto simp: ids_of_append covers_append)
    show ?thesis
      unfolding step pool_inv_def registry_covers_def in_flight_ids_def
      using facts by (auto simp: ids_of_append covers_append covers_upd_other)
  qed
qed

lemma pool_inv_run:
  "pool_inv p \<Longrightarrow> distinct_claims p steps \<Longrightarrow> pool_inv (pool_run p steps)"
proof (induction steps arbitrary: p)
  case Nil
  then show ?case by (simp add: pool_run_def)
next
  case (Cons s steps)
  show ?case
  proof (cases s)
    case (Claim i bt)
    with Cons.prems have "pool_inv (pool_step p s)" and "distinct_claims (pool_step p s) steps"
      using pool_inv_claim by auto
    then show ?thesis using Cons.IH by (simp add: pool_run_def)
  next
    case (Finish i)
    with Cons.prems have "pool_inv (pool_step p s)" and "distinct_claims (pool_step p s) steps"
      using pool_inv_finish by auto
    then show ?thesis using Cons.IH by (simp add: pool_run_def)
  qed
qed

lemma pool_inv_idle: "pool_inv (idle_pool n)"
  by (simp add: pool_inv_def idle_pool_def registry_covers_def in_flight_ids_def
      ids_of_replicate covers_replicate)

lemma unbuffered_step: "unbuffered s \<Longrightarrow> unbuffered (stream_step s op)"
  by (cases op)
     (auto simp: unbuffered_def send_def send_nowait_def receive_def receive_nowait_def Let_def
        split: list.splits option.splits if_splits)

lemma handed_over_step:
  "unbuffered s \<Longrightarrow>
   received (stream_step s op) @ waiting_senders (stream_step s op)
     = received s @ waiting_senders s @ items [op]"
  by (cases op)
     (auto simp: unbuffered_def send_def send_nowait_def receive_def receive_nowait_def Let_def
        split: list.splits option.splits if_splits)

lemma items_append: "items (xs @ ys) = items xs @ items ys"
  by (induction xs rule: items.induct) auto

lemma stream_run_unbuffered:
  "unbuffered s \<Longrightarrow>
   unbuffered (stream_run s ops) \<and>
   received (stream_run s ops) @ waiting_senders (stream_run s ops)
     = received s @ waiting_senders s @ items ops"
proof (induction ops arbitrary: s)
  case Nil
  then show ?case by (simp add: stream_run_def)
next
  case (Cons op ops)
  have u: "unbuffered (stream_step s op)" using Cons.prems by (rule unbuffered_step)
  from Cons.IH [OF u] handed_over_step [OF Cons.prems, of op]
  show ?case
    using items_append [of "[op]" ops] by (simp add: stream_run_def)
qed


lemma py_in_ExecutionContext:
  "py_in a [ExecutionContext] = (a = ExecutionContext \<or> a = EqualsAll)"
  by (auto simp: py_in_def py_is_def py_eq_def ExecutionContext_def)

lemma inject_all_context:
  "list_all (\<lambda>(k, a). py_is a ExecutionContext) deps \<Longrightarrow>
   \<exists>kw'. inject ctx deps kw = Returned kw' \<and>
     (\<forall>key. kw' key =
        (if key \<in> fst ` set deps \<and> kw key = None then Some (PCtx ctx) else kw key))"
proof (induction deps arbitrary: kw)
  case Nil
  then show ?case by simp
next
  case (Cons p deps)
  obtain k a where p: "p = (k, a)" by (cases p)
  with Cons.prems have a: "py_is a ExecutionContext"
    and rest: "list_all (\<lambda>(k, a). py_is a ExecutionContext) deps" by auto
  from Cons.IH [OF rest, of "setdefault kw k (PCtx ctx)"]
  obtain kw' where r: "inject ctx deps (setdefault kw k (PCtx ctx)) = Returned kw'"
    and v: "\<forall>key. kw' key =
        (if key \<in> fst ` set deps \<and> setdefault kw k (PCtx ctx) key = None then Some (PCtx ctx)
         else setdefault kw k (PCtx ctx) key)"
    by blast
  have "inject ctx (p # deps) kw = Returned kw'"
    using p a r by simp
  moreover have "\<forall>key. kw' key =
        (if key \<in> fst ` set (p # deps) \<and> kw key = None then Some (PCtx ctx) else kw key)"
    using v p by (auto simp: setdefault_def split: option.splits)
  ultimately show ?case by blast
qed

lemma inject_impostor:
  "list_ex (\<lambda>(k, a). \<not> py_is a ExecutionContext) deps \<Longrightarrow>
   inject ctx deps kw = Raised ValueError"
  by (induction ctx deps kw rule: inject.induct) auto

lemma dependencies_impostor:
  "list_ex impostor (parameters f) =
   list_ex (\<lambda>(k, a). \<not> py_is a ExecutionContext)
     (dependencies_to_inject f [ExecutionContext])"
  unfolding dependencies_to_inject_def impostor_def list_ex_iff
  by (simp add: case_prod_beta) (metis prod.collapse snd_conv)

lemma dependencies_all_context:
  "\<not> list_ex impostor (parameters f) \<Longrightarrow>
   list_all (\<lambda>(k, a). py_is a ExecutionContext)
     (dependencies_to_inject f [ExecutionContext])"
  by (auto simp: dependencies_to_inject_def impostor_def list_ex_iff list_all_iff case_prod_beta)

lemma dependencies_keys:
  "\<not> list_ex impostor (parameters f) \<Longrightarrow>
   key \<in> fst ` set (dependencies_to_inject f [ExecutionContext]) \<longleftrightarrow>
   (key, ExecutionContext) \<in> set (parameters f)"
  by (force simp: dependencies_to_inject_def impostor_def list_ex_iff py_in_ExecutionContext
      py_is_def)






section \<open>Delivery-exhausted messages\<close>

text \<open>
  C1. A message whose \<open>requeue_count\<close> has reached \<open>max_delivery_attempts\<close> must be
  acknowledged and never sent into the dispatch channel. The loop body acknowledges it
  and then falls through to \<open>send.send(message)\<close>: with \<open>requeue_count = 3\<close> and
  \<open>max_delivery_attempts = 3\<close> the message is acknowledged and sent all the same, and
  the executor that receives it calls the task and the completion hooks.
\<close>

theorem exhausted_message_is_sent:
  "intake_message three_attempts exhausted_message =
     [BrokerAck exhausted_message, ChannelSend exhausted_message]
   \<and> acked (run_trace three_attempts [Iteration False (ReadDone [exhausted_message] None)])
     = [exhausted_message]
   \<and> sent (run_trace three_attempts [Iteration False (ReadDone [exhausted_message] None)])
     = [exhausted_message]
   \<and> trace (fst (worker quiet_worker idle
        (sent (run_trace three_attempts
                 [Iteration False (ReadDone [exhausted_message] None)])))) =
     [Claimed ''t1'', AckContextEnter exhausted_message, CallTaskFn (task exhausted_message),
      AckContextCommit exhausted_message, Released ''t1'', ResultSet ''t1'' PNone,
      OnTaskCompletion 0 (task exhausted_message) PNone,
      OnTaskCompletion (Suc 0) (task exhausted_message) PNone]"
proof -
  have i: "intake_message three_attempts exhausted_message =
     [BrokerAck exhausted_message, ChannelSend exhausted_message]"
    by (simp add: intake_message_def three_attempts_def exhausted_message_def)
  have t: "run_trace three_attempts [Iteration False (ReadDone [exhausted_message] None)] =
     [BrokerRead, BrokerAck exhausted_message, ChannelSend exhausted_message]"
    by (simp add: run_trace_def stop_fires_def interrupted_def intake_batch_def i)
  have w: "trace (fst (worker quiet_worker idle [exhausted_message])) =
     [Claimed ''t1'', AckContextEnter exhausted_message, CallTaskFn (task exhausted_message),
      AckContextCommit exhausted_message, Released ''t1'', ResultSet ''t1'' PNone,
      OnTaskCompletion 0 (task exhausted_message) PNone,
      OnTaskCompletion (Suc 0) (task exhausted_message) PNone]"
    by (simp add: worker_task_def ack_context_exit_def result_set_def stores_def
        store_raises_def Let_def call_task_fn_def dependencies_to_inject_def ex_defs)
  show ?thesis using i w by (simp add: t acked_def sent_def)
qed

section \<open>The stop signal\<close>




section \<open>Unknown task names\<close>

text \<open>
  C2, as stated: a message whose task name is not in the registry is a failure of that
  task only, and the executor goes on with the next message. The lookup
  \<open>self._tasks.tasks[task.task_name]\<close> stands before the \<open>try\<close>: its \<open>KeyError\<close> leaves
  the loop, and the message after the unknown one is never claimed.
\<close>

theorem unknown_name_counterexample:
  "snd (worker quiet_worker idle [unknown_message, fresh_message])
     = Some (KeyError ''no-such-task'')
   \<and> trace (fst (worker quiet_worker idle [unknown_message, fresh_message]))
     = [Claimed ''t3'']"
  by (simp add: worker_task_def ex_defs)

text \<open>
  C2, amended: for a message whose task name is not in the registry, the executor
  enters the message into the in-flight registry and then ends with the lookup's
  \<open>KeyError\<close>: no acknowledgement context is entered, no hook is called, and the messages
  after it are not received by this executor.
\<close>

theorem unknown_name_propagates:
  "tasks w (task_name (task bt)) = None \<Longrightarrow>
   worker w st (bt # recv) = (claim bt st, Some (KeyError (task_name (task bt))))"
  by (simp add: worker_task_unknown)

theorem unknown_name_propagates_witness:
  "tasks quiet_worker (task_name (task unknown_message)) = None \<and>
   worker quiet_worker idle [unknown_message, fresh_message]
     = (claim unknown_message idle, Some (KeyError ''no-such-task''))"
proof -
  have h: "tasks quiet_worker (task_name (task unknown_message)) = None"
    by (simp add: ex_defs)
  show ?thesis
    using h unknown_name_propagates [OF h, of idle "[fresh_message]"]
    by (simp add: unknown_message_def)
qed

section \<open>The order of an executor's steps\<close>

text \<open>
  C3, as stated: on the success path the task id is removed from the in-flight registry
  after result storage and the on-completion hooks. The \<open>finally\<close> clause belongs to the
  \<open>try\<close> around the call alone, so the removal comes first: in the run of \<open>test-task\<close>
  the removal precedes the storage, and neither the storage nor the first hook
  precedes the removal.
\<close>

theorem release_order_counterexample:
  "before (Released ''t2'') (ResultSet ''t2'' PNone)
     (trace (fst (worker_task quiet_worker idle fresh_message)))
   \<and> \<not> before (ResultSet ''t2'' PNone) (Released ''t2'')
     (trace (fst (worker_task quiet_worker idle fresh_message)))
   \<and> \<not> before (OnTaskCompletion 0 (task fresh_message) PNone) (Released ''t2'')
     (trace (fst (worker_task quiet_worker idle fresh_message)))"
proof -
  have "trace (fst (worker_task quiet_worker idle fresh_message)) =
     [Claimed ''t2'', AckContextEnter fresh_message, CallTaskFn (task fresh_message),
      AckContextCommit fresh_message, Released ''t2'', ResultSet ''t2'' PNone,
      OnTaskCompletion 0 (task fresh_message) PNone,
      OnTaskCompletion (Suc 0) (task fresh_message) PNone]"
    by (simp add: worker_task_def ack_context_exit_def result_set_def stores_def
        store_raises_def Let_def call_task_fn_def dependencies_to_inject_def ex_defs)
  then show ?thesis by simp
qed

text \<open>
  C3, amended: for a task that returns, the executor's steps are, in this order: entry
  into the in-flight registry, the registry lookup, the acknowledgement context with the
  call inside it, the acknowledgement on leaving the context, removal from the in-flight
  registry, the storage call if the result backend is true, and, unless that call raises,
  the on-completion hooks in registration order up to the first that raises.
\<close>

theorem executor_step_order:
  assumes "tasks w (task_name (task bt)) = Some d"
    and "call_task_fn w (task bt) d = Returned v"
  shows "trace (fst (worker_task w st bt)) =
            trace st
            @ [Claimed (task_id (task bt)), AckContextEnter bt, CallTaskFn (task bt),
               AckContextCommit bt, Released (task_id (task bt))]
            @ (if stores w then [ResultSet (task_id (task bt)) v] else [])
            @ (case store_raises w (task_id (task bt)) v of
                 None \<Rightarrow> fst (run_on_task_completion 0 (ext_on_task_completion w) (task bt) v)
               | Some e \<Rightarrow> [])"
  using worker_task_returned_trace(1) [OF assms] .

theorem executor_step_order_witness:
  "tasks quiet_worker (task_name (task fresh_message)) = Some noop_task \<and>
   call_task_fn quiet_worker (task fresh_message) noop_task = Returned PNone \<and>
   trace (fst (worker_task quiet_worker idle fresh_message)) =
     [Claimed ''t2'', AckContextEnter fresh_message, CallTaskFn (task fresh_message),
      AckContextCommit fresh_message, Released ''t2'', ResultSet ''t2'' PNone,
      OnTaskCompletion 0 (task fresh_message) PNone,
      OnTaskCompletion (Suc 0) (task fresh_message) PNone]"
proof -
  have h: "tasks quiet_worker (task_name (task fresh_message)) = Some noop_task"
    by (simp add: ex_defs)
  have c: "call_task_fn quiet_worker (task fresh_message) noop_task = Returned PNone"
    by (simp add: call_task_fn_def dependencies_to_inject_def ex_defs)
  show ?thesis
    using h c executor_step_order [OF h c, of idle]
    by (simp add: stores_def store_raises_def ex_defs)
qed

section \<open>A task that raises\<close>

text \<open>
  C4, as stated: for every task whose execution raises, each registered on-exception
  hook is called exactly once and the executor goes on with the next message. The hooks
  are awaited inside the \<open>except\<close> clause with no handler around them: when the first of
  two hooks raises, the second is never called, and the hook's exception ends the
  executor, so that the next message is not received.
\<close>

theorem exception_hook_counterexample:
  "snd (worker failing_worker_bad_hook idle [fresh_message, params_message])
     = Some (TaskError ''hook'')
   \<and> trace (fst (worker failing_worker_bad_hook idle [fresh_message, params_message])) =
     [Claimed ''t2'', AckContextEnter fresh_message, CallTaskFn (task fresh_message),
      AckContextAbandon fresh_message,
      OnTaskException 0 (task fresh_message) (TaskError ''boom''), Released ''t2'']"
  by (simp add: worker_task_def ack_context_exit_def Let_def call_task_fn_def
      dependencies_to_inject_def ex_defs)

text \<open>
  C4, amended: for every task whose execution raises an \<open>Exception\<close>, provided that no
  on-exception hook itself raises, each registered on-exception hook is called exactly
  once, in registration order, with the raised exception; no on-completion hook is
  called, nothing is stored, the acknowledgement context is left without an
  acknowledgement, the task id is removed from the in-flight registry, and the executor
  goes on with the next message.
\<close>

theorem task_exception_reported:
  assumes "tasks w (task_name (task bt)) = Some d"
    and "call_task_fn w (task bt) d = Raised e"
    and "is_Exception e"
    and "\<forall>h \<in> set (ext_on_task_exception w). h (task bt) e = None"
  shows "worker w st (bt # recv) =
     worker w
       (release bt
          (log ([AckContextEnter bt, CallTaskFn (task bt), AckContextAbandon bt]
                @ map (\<lambda>i. OnTaskException i (task bt) e)
                    [0 ..< length (ext_on_task_exception w)])
             (claim bt st)))
       recv"
  using assms
  by (simp add: worker_task_raised run_on_task_exception_quiet)

theorem task_exception_reported_witness:
  "tasks failing_worker (task_name (task fresh_message)) = Some noop_task \<and>
   call_task_fn failing_worker (task fresh_message) noop_task = Raised (TaskError ''boom'') \<and>
   is_Exception (TaskError ''boom'') \<and>
   list_all (\<lambda>h. h (task fresh_message) (TaskError ''boom'') = None)
     (ext_on_task_exception failing_worker) \<and>
   snd (worker failing_worker idle [fresh_message]) = None \<and>
   trace (fst (worker failing_worker idle [fresh_message])) =
     [Claimed ''t2'', AckContextEnter fresh_message, CallTaskFn (task fresh_message),
      AckContextAbandon fresh_message,
      OnTaskException 0 (task fresh_message) (TaskError ''boom''),
      OnTaskException (Suc 0) (task fresh_message) (TaskError ''boom''),
      Released ''t2'']"
proof -
  have h: "tasks failing_worker (task_name (task fresh_message)) = Some noop_task"
    by (simp add: ex_defs)
  have c: "call_task_fn failing_worker (task fresh_message) noop_task
             = Raised (TaskError ''boom'')"
    by (simp add: call_task_fn_def dependencies_to_inject_def ex_defs)
  have x: "is_Exception (TaskError ''boom'')" by simp
  have q: "\<forall>h \<in> set (ext_on_task_exception failing_worker).
             h (task fresh_message) (TaskError ''boom'') = None"
    by (simp add: ex_defs)
  show ?thesis
    using h c x q task_exception_reported [OF h c x q, of idle "[]"]
    by (simp add: ex_defs)
qed

section \<open>A task that returns\<close>

text \<open>
  C5, as stated: for every task that returns, with a result backend configured, the value
  is stored under the task's id and each registered on-completion hook is called exactly
  once with the result. It fails in three ways. The hooks are awaited one after the other
  with no handler around them: when the first of two hooks raises, the second is never
  called. The storage call is awaited with no handler either: when it raises, the value
  is not known to be stored, no hook is called, and the exception ends the executor. And
  the test before the storage is the backend's truth value: a configured backend that is
  false is never given the value.
\<close>

theorem completion_hook_counterexample:
  "snd (worker quiet_worker_bad_hook idle [fresh_message, params_message])
     = Some (TaskError ''hook'')
   \<and> trace (fst (worker quiet_worker_bad_hook idle [fresh_message, params_message])) =
     [Claimed ''t2'', AckContextEnter fresh_message, CallTaskFn (task fresh_message),
      AckContextCommit fresh_message, Released ''t2'', ResultSet ''t2'' PNone,
      OnTaskCompletion 0 (task fresh_message) PNone]
   \<and> snd (worker broken_backend_worker idle [fresh_message, params_message])
     = Some (TaskError ''backend'')
   \<and> trace (fst (worker broken_backend_worker idle [fresh_message, params_message])) =
     [Claimed ''t2'', AckContextEnter fresh_message, CallTaskFn (task fresh_message),
      AckContextCommit fresh_message, Released ''t2'', ResultSet ''t2'' PNone]
   \<and> result_backend empty_backend_worker = Some empty_backend
   \<and> results (fst (worker empty_backend_worker idle [fresh_message])) ''t2'' = None
   \<and> trace (fst (worker empty_backend_worker idle [fresh_message])) =
     [Claimed ''t2'', AckContextEnter fresh_message, CallTaskFn (task fresh_message),
      AckContextCommit fresh_message, Released ''t2'',
      OnTaskCompletion 0 (task fresh_message) PNone,
      OnTaskCompletion (Suc 0) (task fresh_message) PNone]"
  by (simp add: worker_task_def ack_context_exit_def result_set_def stores_def
      store_raises_def Let_def call_task_fn_def dependencies_to_inject_def ex_defs)

text \<open>
  C5, amended: for every task that returns, with a result backend configured that is
  true and whose storage call returns, the value stored under the task's id is the value
  the call returned, and the storage precedes every on-completion hook; provided that no
  on-completion hook itself raises, each registered on-completion hook is called exactly
  once, in registration order, with that value, and no exception leaves the loop body.
\<close>

theorem result_stored_then_hooks:
  assumes "tasks w (task_name (task bt)) = Some d"
    and "call_task_fn w (task bt) d = Returned v"
    and "result_backend w = Some rb"
    and "truthy rb"
    and "set_raises rb (task_id (task bt)) v = None"
  shows "results (fst (worker_task w st bt)) (task_id (task bt)) = Some v
     \<and> trace (fst (worker_task w st bt)) =
            trace st
            @ [Claimed (task_id (task bt)), AckContextEnter bt, CallTaskFn (task bt),
               AckContextCommit bt, Released (task_id (task bt)),
               ResultSet (task_id (task bt)) v]
            @ fst (run_on_task_completion 0 (ext_on_task_completion w) (task bt) v)
     \<and> ((\<forall>h \<in> set (ext_on_task_completion w). h (task bt) v = None) \<longrightarrow>
         fst (run_on_task_completion 0 (ext_on_task_completion w) (task bt) v) =
           map (\<lambda>i. OnTaskCompletion i (task bt) v)
              [0 ..< length (ext_on_task_completion w)]
         \<and> snd (worker_task w st bt) = None)"
proof -
  have s: "stores w" using assms(3,4) by (simp add: stores_def)
  have r: "store_raises w (task_id (task bt)) v = None"
    using assms(3,4,5) by (simp add: store_raises_def)
  show ?thesis
    using worker_task_returned_trace [OF assms(1,2), of st]
      worker_task_returned_results [OF assms(1,2) s r, of st] s r
    by (simp add: run_on_task_completion_quiet)
qed

theorem result_stored_then_hooks_witness:
  "tasks quiet_worker (task_name (task fresh_message)) = Some noop_task \<and>
   call_task_fn quiet_worker (task fresh_message) noop_task = Returned PNone \<and>
   result_backend quiet_worker = Some sound_backend \<and>
   truthy sound_backend \<and>
   set_raises sound_backend (task_id (task fresh_message)) PNone = None \<and>
   list_all (\<lambda>h. h (task fresh_message) PNone = None)
     (ext_on_task_completion quiet_worker) \<and>
   results (fst (worker_task quiet_worker idle fresh_message)) ''t2'' = Some PNone \<and>
   fst (run_on_task_completion 0 (ext_on_task_completion quiet_worker)
          (task fresh_message) PNone) =
     [OnTaskCompletion 0 (task fresh_message) PNone,
      OnTaskCompletion (Suc 0) (task fresh_message) PNone] \<and>
   snd (worker_task quiet_worker idle fresh_message) = None"
proof -
  have h: "tasks quiet_worker (task_name (task fresh_message)) = Some noop_task"
    by (simp add: ex_defs)
  have c: "call_task_fn quiet_worker (task fresh_message) noop_task = Returned PNone"
    by (simp add: call_task_fn_def dependencies_to_inject_def ex_defs)
  have b: "result_backend quiet_worker = Some sound_backend"
    by (simp add: ex_defs)
  have t: "truthy sound_backend" by (simp add: ex_defs)
  have n: "set_raises sound_backend (task_id (task fresh_message)) PNone = None"
    by (simp add: ex_defs)
  have q: "\<forall>h \<in> set (ext_on_task_completion quiet_worker). h (task fresh_message) PNone = None"
    by (simp add: ex_defs)
  show ?thesis
    using h c b t n q result_stored_then_hooks [OF h c b t n, of idle]
    by (simp add: ex_defs)
qed

section \<open>The in-flight registry\<close>

text \<open>
  C6, as stated: every claimed task's id is in the in-flight registry from claim until
  execution finishes, and is removed on every outcome. It fails twice. A message with an
  unknown task name is entered before the lookup, outside the \<open>try\<close>: the lookup's
  \<open>KeyError\<close> ends the executor and the entry stays. And when a second executor
  claims a task with the id of a task another executor is working on, the two share one
  entry, and the first to finish removes it while the second is still executing.
\<close>

theorem in_flight_registry_counterexample:
  "active_tasks (fst (worker quiet_worker idle [unknown_message])) ''t3'' = Some unknown_message
   \<and> snd (worker quiet_worker idle [unknown_message]) = Some (KeyError ''no-such-task'')
   \<and> executors (pool_run (idle_pool 2)
        [Claim 0 fresh_message, Claim 1 redelivered_message, Finish 0])
       = [Idle, Executing redelivered_message]
   \<and> registry (pool_run (idle_pool 2)
        [Claim 0 fresh_message, Claim 1 redelivered_message, Finish 0]) ''t2'' = None"
  by (simp add: worker_task_def Let_def pool_run_def idle_pool_def redelivered_message_def ex_defs
      numeral_2_eq_2)

text \<open>
  C6, amended: for every claimed task whose name is in the registry of tasks, the id is
  entered at the claim, is still there when the call has finished (by return, exception
  or cancellation), and is removed by the \<open>finally\<close> clause on each of these outcomes;
  and in a pool where no executor claims an id that another executor is working on,
  every executor's task is in the registry for as long as that executor is working on
  it, and the ids in flight are distinct.
\<close>

theorem in_flight_registry:
  "(tasks w (task_name (task bt)) = Some d \<longrightarrow>
      active_tasks (fst (worker_task w st bt)) = (active_tasks st)(task_id (task bt) := None) \<and>
      (\<exists>fin rest. (fin = AckContextCommit bt \<or> fin = AckContextAbandon bt) \<and>
           trace (fst (worker_task w st bt)) =
             trace st @ [Claimed (task_id (task bt)), AckContextEnter bt, CallTaskFn (task bt), fin]
               @ rest \<and>
           Released (task_id (task bt)) \<in> set rest))
   \<and> (distinct_claims (idle_pool n) steps \<longrightarrow>
        registry_covers (pool_run (idle_pool n) steps) \<and>
        distinct (in_flight_ids (pool_run (idle_pool n) steps)))"
  using worker_task_releases [of w bt d st] worker_task_span [of w bt d st]
    pool_inv_run [OF pool_inv_idle, of n steps]
  by (simp add: pool_inv_def)

theorem in_flight_registry_witness:
  "tasks quiet_worker (task_name (task fresh_message)) = Some noop_task \<and>
   active_tasks (fst (worker_task quiet_worker idle fresh_message)) = Map.empty \<and>
   distinct_claims (idle_pool 2) [Claim 0 fresh_message, Claim 1 params_message, Finish 0] \<and>
   registry_covers (pool_run (idle_pool 2)
      [Claim 0 fresh_message, Claim 1 params_message, Finish 0])"
proof -
  have h: "tasks quiet_worker (task_name (task fresh_message)) = Some noop_task"
    by (simp add: ex_defs)
  have c: "distinct_claims (idle_pool 2)
             [Claim 0 fresh_message, Claim 1 params_message, Finish 0]"
    by (simp add: idle_pool_def in_flight_ids_def numeral_2_eq_2 ex_defs)
  show ?thesis
    using h c
      in_flight_registry [of quiet_worker fresh_message noop_task idle 2
        "[Claim 0 fresh_message, Claim 1 params_message, Finish 0]"]
    by (simp add: idle_def)
qed

section \<open>Injection of the execution context\<close>

text \<open>
  C9, as stated: every parameter declared as \<open>ExecutionContext\<close> is supplied the worker's
  shared instance, and the \<open>ValueError\<close> branch cannot be reached. It fails in three
  ways. When the annotations of the task's module are postponed, \<open>inspect.signature\<close>
  reports the string \<open>ExecutionContext\<close>, which is not \<open>in (ExecutionContext,)\<close>: nothing
  is injected and the task finds its parameter unbound. An annotation that is equal to
  \<open>ExecutionContext\<close> without being it passes the \<open>in\<close> test and fails the \<open>is\<close> test:
  the branch is taken. And the value is put in with \<open>kwargs.setdefault\<close>: when the
  deserialized keyword arguments already bind the parameter, that binding stays.
\<close>

theorem context_counterexample:
  "list_ex (\<lambda>(k, a). k = ''context'' \<and> declared_ExecutionContext a)
     (parameters (func task_with_postponed_context))
   \<and> call_task_fn echo_worker (echo_record ''[]'') task_with_postponed_context
       = Returned (PStr ''unbound'')
   \<and> call_task_fn echo_worker (echo_record ''[]'') task_with_any = Raised ValueError
   \<and> call_task_fn echo_worker (echo_record ''bound'') task_with_context = Returned (PInt 2)
   \<and> PInt 2 \<noteq> PCtx (execution_context echo_worker)"
  by (simp add: call_task_fn_def dependencies_to_inject_def setdefault_def echo_worker_def
      echo_record_def task_with_context_def task_with_postponed_context_def task_with_any_def
      declared_ExecutionContext_def py_in_def py_is_def py_eq_def ExecutionContext_def ex_defs)

text \<open>
  C9, amended: when some parameter's annotation is equal to \<open>ExecutionContext\<close> without
  being that class, \<open>_call_task_fn\<close> raises \<open>ValueError\<close>; otherwise it reaches the
  middleware stack with keyword arguments in which every parameter whose annotation, as
  \<open>inspect.signature\<close> reports it, is the class \<open>ExecutionContext\<close> itself, and that the
  deserialized keyword arguments do not bind, is bound to the worker's one
  \<open>_execution_context\<close>, the same for every task and every call, and every other binding
  is as deserialized (a parameter whose annotation is postponed gets nothing).
\<close>

theorem context_injected:
  assumes "deserialize_task w d t = Returned (a, kw)"
  shows "if list_ex impostor (parameters (func d))
         then call_task_fn w t d = Raised ValueError
         else (\<exists>kw'. call_task_fn w t d
                       = middleware_stack_call w d a kw' (execution_context w) \<and>
                (\<forall>key. kw' key =
                   (if (key, ExecutionContext) \<in> set (parameters (func d)) \<and> kw key = None
                    then Some (PCtx (execution_context w)) else kw key)))"
proof (cases "list_ex impostor (parameters (func d))")
  case True
  then have "inject (execution_context w)
        (dependencies_to_inject (func d) [ExecutionContext]) kw = Raised ValueError"
    by (simp add: dependencies_impostor inject_impostor)
  then show ?thesis using True assms by (simp add: call_task_fn_def)
next
  case False
  from inject_all_context [OF dependencies_all_context [OF False], of "execution_context w" kw]
  obtain kw' where r: "inject (execution_context w)
        (dependencies_to_inject (func d) [ExecutionContext]) kw = Returned kw'"
    and v: "\<forall>key. kw' key =
        (if key \<in> fst ` set (dependencies_to_inject (func d) [ExecutionContext])
              \<and> kw key = None
         then Some (PCtx (execution_context w)) else kw key)"
    by blast
  have "call_task_fn w t d = middleware_stack_call w d a kw' (execution_context w)"
    using assms r by (simp add: call_task_fn_def)
  moreover have "\<forall>key. kw' key =
        (if (key, ExecutionContext) \<in> set (parameters (func d)) \<and> kw key = None
         then Some (PCtx (execution_context w)) else kw key)"
    using v by (simp add: dependencies_keys [OF False])
  ultimately show ?thesis using False by auto
qed

theorem context_injected_witness:
  "deserialize_task echo_worker task_with_context (echo_record ''[]'')
     = Returned ([PInt 1], Map.empty) \<and>
   call_task_fn echo_worker (echo_record ''[]'') task_with_context
     = Returned (PCtx (execution_context echo_worker))"
proof -
  have h: "deserialize_task echo_worker task_with_context (echo_record ''[]'')
             = Returned ([PInt 1], Map.empty)"
    by (simp add: echo_worker_def echo_record_def)
  have n: "\<not> list_ex impostor (parameters (func task_with_context))"
    by (simp add: task_with_context_def impostor_def py_is_def ExecutionContext_def
        py_in_def py_eq_def)
  from context_injected [OF h] n
  obtain kw' where c: "call_task_fn echo_worker (echo_record ''[]'') task_with_context =
        middleware_stack_call echo_worker task_with_context [PInt 1] kw'
          (execution_context echo_worker)"
    and v: "\<forall>key. kw' key =
        (if (key, ExecutionContext) \<in> set (parameters (func task_with_context))
         then Some (PCtx (execution_context echo_worker)) else None)"
    by auto
  from v have "kw' ''context'' = Some (PCtx (execution_context echo_worker))"
    by (simp add: task_with_context_def)
  with c h show ?thesis by (simp add: echo_worker_def)
qed

section \<open>The shutdown sequence\<close>



section \<open>The capacity of the dispatch channel\<close>

text \<open>
  C10. The dispatch channel is created with the default buffer size of zero: whatever is
  sent and received, in any order, the buffer is empty between operations, and every
  item sent has either been handed to a receiver or is still held by its sender, who
  waits: a send completes only by a hand-over to a receiver.
\<close>

theorem dispatch_channel_unbuffered:
  "max_buffer_size dispatch_channel = 0
   \<and> buffer (stream_run dispatch_channel ops) = []
   \<and> received (stream_run dispatch_channel ops) @ waiting_senders (stream_run dispatch_channel ops)
       = items ops"
proof -
  have u: "unbuffered dispatch_channel"
    by (simp add: unbuffered_def dispatch_channel_def create_memory_object_stream_def)
  from stream_run_unbuffered [OF u, of ops] show ?thesis
    by (simp add: unbuffered_def dispatch_channel_def create_memory_object_stream_def)
qed

theorem dispatch_channel_unbuffered_witness:
  "received (stream_run dispatch_channel [Send fresh_message, Send params_message, Receive])
     = [fresh_message]
   \<and> waiting_senders
        (stream_run dispatch_channel [Send fresh_message, Send params_message, Receive])
     = [params_message]
   \<and> buffer (stream_run dispatch_channel [Send fresh_message, Send params_message, Receive])
     = []"
proof -
  have "received (stream_run dispatch_channel [Send fresh_message, Send params_message, Receive])
     = [fresh_message]"
    by (simp add: stream_run_def dispatch_channel_def create_memory_object_stream_def send_def
        send_nowait_def receive_def receive_nowait_def)
  with dispatch_channel_unbuffered
         [of "[Send fresh_message, Send params_message, Receive]"]
  show ?thesis by simp
qed

end
